theory Spec2Isabelle
  imports Main
begin

section \<open>Messages received by the scene\<close>

text \<open>
  The protobuf message classes are declared outside \<^verbatim>\<open>Scene.cc\<close>; a message is
  represented by the fields that \<^verbatim>\<open>Scene.cc\<close> reads, plus one opaque payload that is
  only handed on to the entity. An optional protobuf field (\<^verbatim>\<open>has_action\<close>,
  \<^verbatim>\<open>has_parent_id\<close>, \<^verbatim>\<open>has_ambient\<close>) is an \<open>option\<close>.
\<close>

datatype visual_action = UPDATE | DELETE

record 'a visual_msg =
  str_id :: string
  action :: "visual_action option"
  parent_id :: "string option"
  visual_payload :: 'a

record 'l light_msg =
  light_str_id :: string
  light_payload :: 'l

record 'p pose_msg =
  pose_str_id :: string
  pose_value :: 'p

record selection_msg =
  selection_str_id :: string

record ('a, 'l, 'p, 'c) scene_msg =
  scene_visual :: "'a visual_msg list"
  scene_pose :: "'p pose_msg list"
  scene_light :: "'l light_msg list"
  scene_ambient :: "'c option"

text \<open>\<^verbatim>\<open>common::Message::Convert\<close> on a pose message yields the pose it carries.\<close>

definition Convert :: "'p pose_msg \<Rightarrow> 'p" where
  "Convert m = pose_value m"


section \<open>Entities\<close>

text \<open>
  The classes \<^verbatim>\<open>Visual\<close>, \<^verbatim>\<open>Light\<close> and \<^verbatim>\<open>SelectionObj\<close> are implemented outside
  \<^verbatim>\<open>Scene.cc\<close>. An entity is therefore represented by its constructor arguments and
  by the member calls that the scene makes on it, in the order they are made: no
  assumption is made on what \<^verbatim>\<open>LoadFromMsg\<close>, \<^verbatim>\<open>UpdateFromMsg\<close> or \<^verbatim>\<open>SetPose\<close> do
  inside the entity. The parent handed to the constructor of a visual is a pointer
  held in the registry; it is represented by the key under which it is registered,
  \<open>None\<close> standing for the scene itself.
\<close>

datatype ('a, 'p) visual_call =
    LoadFromMsg "'a visual_msg"
  | UpdateFromMsg "'a visual_msg"
  | SetPose 'p

record ('a, 'p) visual =
  vis_name :: string
  vis_parent :: "string option"
  vis_calls :: "('a, 'p) visual_call list"

datatype 'l light_call = LightLoadFromMsg "'l light_msg"

record 'l light =
  light_calls :: "'l light_call list"


section \<open>The scene\<close>

text \<open>
  The members of \<^verbatim>\<open>Scene\<close> that the message handlers and \<^verbatim>\<open>PreRender\<close> touch.
  \<open>selectionObj\<close> holds the argument of the latest \<^verbatim>\<open>SelectionObj::Attach\<close> call:
  the key of the attached visual, or \<open>None\<close> after \<^verbatim>\<open>Attach(NULL)\<close>.
  The mutex \<^verbatim>\<open>receiveMutex\<close> is not represented: every handler below is one
  atomic step of a sequential model.
\<close>

record ('a, 'l, 'p, 'c) scene =
  visuals :: "string \<rightharpoonup> ('a, 'p) visual"
  lights :: "string \<rightharpoonup> 'l light"
  visualMsgs :: "'a visual_msg list"
  lightMsgs :: "'l light_msg list"
  poseMsgs :: "'p pose_msg list"
  selectionMsg :: "selection_msg option"
  selectionObj :: "string option"
  ambientColor :: 'c


subsection \<open>Message handlers\<close>

definition SetAmbientColor :: "'c \<Rightarrow> ('a, 'l, 'p, 'c) scene \<Rightarrow> ('a, 'l, 'p, 'c) scene" where
  "SetAmbientColor color s = s\<lparr>ambientColor := color\<rparr>"

definition ReceiveSceneMsg ::
  "('a, 'l, 'p, 'c) scene_msg \<Rightarrow> ('a, 'l, 'p, 'c) scene \<Rightarrow> ('a, 'l, 'p, 'c) scene" where
  "ReceiveSceneMsg msg s =
     (let s1 = s\<lparr>visualMsgs := visualMsgs s @ scene_visual msg\<rparr>;
          s2 = s1\<lparr>poseMsgs := poseMsgs s1 @ scene_pose msg\<rparr>;
          s3 = s2\<lparr>lightMsgs := lightMsgs s2 @ scene_light msg\<rparr>
      in case scene_ambient msg of
           Some color \<Rightarrow> SetAmbientColor color s3
         | None \<Rightarrow> s3)"

definition ReceiveVisualMsg ::
  "'a visual_msg \<Rightarrow> ('a, 'l, 'p, 'c) scene \<Rightarrow> ('a, 'l, 'p, 'c) scene" where
  "ReceiveVisualMsg msg s = s\<lparr>visualMsgs := visualMsgs s @ [msg]\<rparr>"

text \<open>
  The loop of \<^verbatim>\<open>ReceivePoseMsg\<close>: erase the first pending pose message with the
  given identifier, then stop (\<^verbatim>\<open>break\<close>).
\<close>

fun erase_first :: "string \<Rightarrow> 'p pose_msg list \<Rightarrow> 'p pose_msg list" where
  "erase_first i [] = []"
| "erase_first i (m # ms) = (if pose_str_id m = i then ms else m # erase_first i ms)"

definition ReceivePoseMsg ::
  "'p pose_msg \<Rightarrow> ('a, 'l, 'p, 'c) scene \<Rightarrow> ('a, 'l, 'p, 'c) scene" where
  "ReceivePoseMsg msg s = s\<lparr>poseMsgs := erase_first (pose_str_id msg) (poseMsgs s) @ [msg]\<rparr>"

definition ReceiveLightMsg ::
  "'l light_msg \<Rightarrow> ('a, 'l, 'p, 'c) scene \<Rightarrow> ('a, 'l, 'p, 'c) scene" where
  "ReceiveLightMsg msg s = s\<lparr>lightMsgs := lightMsgs s @ [msg]\<rparr>"

definition OnSelectionMsg ::
  "selection_msg \<Rightarrow> ('a, 'l, 'p, 'c) scene \<Rightarrow> ('a, 'l, 'p, 'c) scene" where
  "OnSelectionMsg msg s = s\<lparr>selectionMsg := Some msg\<rparr>"


subsection \<open>Applying one message\<close>

definition ProcessVisualMsg ::
  "'a visual_msg \<Rightarrow> ('a, 'l, 'p, 'c) scene \<Rightarrow> ('a, 'l, 'p, 'c) scene" where
  "ProcessVisualMsg msg s =
     (if action msg = Some DELETE then
        (case visuals s (str_id msg) of
           Some v \<Rightarrow> s\<lparr>visuals := (visuals s)(str_id msg := None)\<rparr>
         | None \<Rightarrow> s)
      else
        (case visuals s (str_id msg) of
           Some v \<Rightarrow>
             s\<lparr>visuals := (visuals s)(str_id msg \<mapsto>
                  v\<lparr>vis_calls := vis_calls v @ [UpdateFromMsg msg]\<rparr>)\<rparr>
         | None \<Rightarrow>
             (let parent =
                    (case parent_id msg of
                       Some p \<Rightarrow> (case visuals s p of Some pv \<Rightarrow> Some p | None \<Rightarrow> None)
                     | None \<Rightarrow> None);
                  visual = \<lparr>vis_name = str_id msg, vis_parent = parent,
                            vis_calls = [LoadFromMsg msg]\<rparr>
              in s\<lparr>visuals := (visuals s)(str_id msg \<mapsto> visual)\<rparr>)))"

definition ProcessLightMsg ::
  "'l light_msg \<Rightarrow> ('a, 'l, 'p, 'c) scene \<Rightarrow> ('a, 'l, 'p, 'c) scene" where
  "ProcessLightMsg msg s =
     (case lights s (light_str_id msg) of
        None \<Rightarrow>
          s\<lparr>lights := (lights s)(light_str_id msg \<mapsto>
               \<lparr>light_calls = [LightLoadFromMsg msg]\<rparr>)\<rparr>
      | Some l \<Rightarrow> s)"


subsection \<open>The cycle: \<^verbatim>\<open>PreRender\<close>\<close>

text \<open>
  The pose loop of \<^verbatim>\<open>PreRender\<close> walks \<^verbatim>\<open>poseMsgs\<close> with an iterator and erases in
  place. \<open>kept\<close> is the part of the list before the iterator, the second argument is
  the part from the iterator on.
\<close>

fun pose_loop ::
  "'p pose_msg list \<Rightarrow> 'p pose_msg list \<Rightarrow> ('a, 'l, 'p, 'c) scene \<Rightarrow> ('a, 'l, 'p, 'c) scene" where
  "pose_loop kept [] s = s\<lparr>poseMsgs := kept\<rparr>"
| "pose_loop kept (m # ms) s =
     (case visuals s (pose_str_id m) of
        Some v \<Rightarrow>
          pose_loop kept ms
            (s\<lparr>visuals := (visuals s)(pose_str_id m \<mapsto>
                 v\<lparr>vis_calls := vis_calls v @ [SetPose (Convert m)]\<rparr>)\<rparr>)
      | None \<Rightarrow> pose_loop (kept @ [m]) ms s)"

definition PreRender :: "('a, 'l, 'p, 'c) scene \<Rightarrow> ('a, 'l, 'p, 'c) scene" where
  "PreRender s =
     (let s1 = (fold ProcessVisualMsg (visualMsgs s) s)\<lparr>visualMsgs := []\<rparr>;
          s2 = (fold ProcessLightMsg (lightMsgs s1) s1)\<lparr>lightMsgs := []\<rparr>;
          s3 = pose_loop [] (poseMsgs s2) s2
      in case selectionMsg s3 of
           Some sel \<Rightarrow>
             s3\<lparr>selectionObj :=
                  (case visuals s3 (selection_str_id sel) of
                     Some v \<Rightarrow> Some (selection_str_id sel)
                   | None \<Rightarrow> None),
                selectionMsg := None\<rparr>
         | None \<Rightarrow> s3)"



text \<open>
  The four blocks of \<^verbatim>\<open>PreRender\<close>, each as a transformer of the scene: the loop over
  \<^verbatim>\<open>visualMsgs\<close> followed by \<^verbatim>\<open>clear\<close>, the same for \<^verbatim>\<open>lightMsgs\<close>, the pose loop, and
  the resolution of the pending selection message.
\<close>

definition visual_phase :: "('a, 'l, 'p, 'c) scene \<Rightarrow> ('a, 'l, 'p, 'c) scene" where
  "visual_phase s = (fold ProcessVisualMsg (visualMsgs s) s)\<lparr>visualMsgs := []\<rparr>"

definition light_phase :: "('a, 'l, 'p, 'c) scene \<Rightarrow> ('a, 'l, 'p, 'c) scene" where
  "light_phase s = (fold ProcessLightMsg (lightMsgs s) s)\<lparr>lightMsgs := []\<rparr>"

definition pose_phase :: "('a, 'l, 'p, 'c) scene \<Rightarrow> ('a, 'l, 'p, 'c) scene" where
  "pose_phase s = pose_loop [] (poseMsgs s) s"

definition selection_phase :: "('a, 'l, 'p, 'c) scene \<Rightarrow> ('a, 'l, 'p, 'c) scene" where
  "selection_phase s =
     (case selectionMsg s of
        Some sel \<Rightarrow>
          s\<lparr>selectionObj :=
               (case visuals s (selection_str_id sel) of
                  Some v \<Rightarrow> Some (selection_str_id sel)
                | None \<Rightarrow> None),
             selectionMsg := None\<rparr>
      | None \<Rightarrow> s)"


subsection \<open>Sequences of deliveries and cycles\<close>

text \<open>
  The transport delivers messages to the handlers and the render loop signals
  \<^verbatim>\<open>PreRender\<close>; an \<open>event\<close> is one such invocation, \<open>run\<close> performs a sequence of
  them from left to right.
\<close>

datatype ('a, 'l, 'p, 'c) event =
    OnSceneMsg "('a, 'l, 'p, 'c) scene_msg"
  | OnVisualMsg "'a visual_msg"
  | OnLightMsg "'l light_msg"
  | OnPoseMsg "'p pose_msg"
  | OnSelection selection_msg
  | OnPreRender

fun deliver :: "('a, 'l, 'p, 'c) event \<Rightarrow> ('a, 'l, 'p, 'c) scene \<Rightarrow> ('a, 'l, 'p, 'c) scene" where
  "deliver (OnSceneMsg m) s = ReceiveSceneMsg m s"
| "deliver (OnVisualMsg m) s = ReceiveVisualMsg m s"
| "deliver (OnLightMsg m) s = ReceiveLightMsg m s"
| "deliver (OnPoseMsg m) s = ReceivePoseMsg m s"
| "deliver (OnSelection m) s = OnSelectionMsg m s"
| "deliver OnPreRender s = PreRender s"

definition run :: "('a, 'l, 'p, 'c) event list \<Rightarrow> ('a, 'l, 'p, 'c) scene \<Rightarrow> ('a, 'l, 'p, 'c) scene" where
  "run es s = fold deliver es s"

text \<open>
  \<open>names X e\<close>: the event delivers a visual or a pose message with identifier \<open>X\<close>,
  alone or inside a scene message. \<open>pending_for X s\<close>: the pending pose messages for
  \<open>X\<close>, in order. \<open>unregistered X s\<close>: no visual is registered under \<open>X\<close> and no
  visual message for \<open>X\<close> is pending. \<open>announced X vm s\<close>: no visual is registered
  under \<open>X\<close>, and \<open>vm\<close> is the one pending visual message for \<open>X\<close>.
\<close>

fun names :: "string \<Rightarrow> ('a, 'l, 'p, 'c) event \<Rightarrow> bool" where
  "names X (OnSceneMsg m) =
     (X \<in> set (map str_id (scene_visual m)) \<or> X \<in> set (map pose_str_id (scene_pose m)))"
| "names X (OnVisualMsg m) = (str_id m = X)"
| "names X (OnLightMsg m) = False"
| "names X (OnPoseMsg m) = (pose_str_id m = X)"
| "names X (OnSelection m) = False"
| "names X OnPreRender = False"

fun is_cycle :: "('a, 'l, 'p, 'c) event \<Rightarrow> bool" where
  "is_cycle OnPreRender = True"
| "is_cycle _ = False"

definition pending_for :: "string \<Rightarrow> ('a, 'l, 'p, 'c) scene \<Rightarrow> 'p pose_msg list" where
  "pending_for X s = filter (\<lambda>m. pose_str_id m = X) (poseMsgs s)"

definition unregistered :: "string \<Rightarrow> ('a, 'l, 'p, 'c) scene \<Rightarrow> bool" where
  "unregistered X s = (visuals s X = None \<and> filter (\<lambda>m. str_id m = X) (visualMsgs s) = [])"

definition announced :: "string \<Rightarrow> 'a visual_msg \<Rightarrow> ('a, 'l, 'p, 'c) scene \<Rightarrow> bool" where
  "announced X vm s = (visuals s X = None \<and> filter (\<lambda>m. str_id m = X) (visualMsgs s) = [vm])"


section \<open>Concrete scenes\<close>

definition scene0 :: "(nat, nat, nat, nat) scene" where
  "scene0 = \<lparr>visuals = Map.empty, lights = Map.empty, visualMsgs = [], lightMsgs = [],
             poseMsgs = [], selectionMsg = None, selectionObj = None, ambientColor = 0\<rparr>"

definition create_v1 :: "nat visual_msg" where
  "create_v1 = \<lparr>str_id = ''v1'', action = None, parent_id = None, visual_payload = 1\<rparr>"

definition update_v1 :: "nat visual_msg" where
  "update_v1 = \<lparr>str_id = ''v1'', action = Some UPDATE, parent_id = None, visual_payload = 2\<rparr>"

definition delete_v1 :: "nat visual_msg" where
  "delete_v1 = \<lparr>str_id = ''v1'', action = Some DELETE, parent_id = None, visual_payload = 0\<rparr>"

definition create_v2 :: "nat visual_msg" where
  "create_v2 = \<lparr>str_id = ''v2'', action = None, parent_id = None, visual_payload = 5\<rparr>"

definition pose_v1_P1 :: "nat pose_msg" where
  "pose_v1_P1 = \<lparr>pose_str_id = ''v1'', pose_value = 1\<rparr>"

definition pose_v1_P2 :: "nat pose_msg" where
  "pose_v1_P2 = \<lparr>pose_str_id = ''v1'', pose_value = 2\<rparr>"

definition pose_v2_P1 :: "nat pose_msg" where
  "pose_v2_P1 = \<lparr>pose_str_id = ''v2'', pose_value = 1\<rparr>"

definition pose_v2_P2 :: "nat pose_msg" where
  "pose_v2_P2 = \<lparr>pose_str_id = ''v2'', pose_value = 2\<rparr>"

definition sun1 :: "nat light_msg" where
  "sun1 = \<lparr>light_str_id = ''sun'', light_payload = 1\<rparr>"

definition sun2 :: "nat light_msg" where
  "sun2 = \<lparr>light_str_id = ''sun'', light_payload = 2\<rparr>"

definition select_v1 :: selection_msg where
  "select_v1 = \<lparr>selection_str_id = ''v1''\<rparr>"

definition select_ghost :: selection_msg where
  "select_ghost = \<lparr>selection_str_id = ''ghost''\<rparr>"

definition scene_two_poses :: "(nat, nat, nat, nat) scene_msg" where
  "scene_two_poses = \<lparr>scene_visual = [], scene_pose = [pose_v1_P1, pose_v1_P2],
                       scene_light = [], scene_ambient = None\<rparr>"

definition v1_selected :: "(nat, nat, nat, nat) scene" where
  "v1_selected = run [OnVisualMsg create_v1, OnSelection select_v1, OnPreRender] scene0"


section \<open>Properties of the handlers and of the cycle\<close>

lemmas handler_defs =
  run_def PreRender_def ProcessVisualMsg_def ProcessLightMsg_def ReceiveSceneMsg_def
  ReceiveVisualMsg_def ReceivePoseMsg_def ReceiveLightMsg_def OnSelectionMsg_def
  SetAmbientColor_def Convert_def Let_def


lemma PreRender_phases:
  "PreRender s = selection_phase (pose_phase (light_phase (visual_phase s)))"
  unfolding PreRender_def visual_phase_def light_phase_def pose_phase_def
      selection_phase_def Let_def ..

subsection \<open>Applying visual messages\<close>

lemma ProcessVisualMsg_frame [simp]:
  "lights (ProcessVisualMsg m s) = lights s"
  "visualMsgs (ProcessVisualMsg m s) = visualMsgs s"
  "lightMsgs (ProcessVisualMsg m s) = lightMsgs s"
  "poseMsgs (ProcessVisualMsg m s) = poseMsgs s"
  "selectionMsg (ProcessVisualMsg m s) = selectionMsg s"
  "selectionObj (ProcessVisualMsg m s) = selectionObj s"
  "ambientColor (ProcessVisualMsg m s) = ambientColor s"
  by (simp_all add: ProcessVisualMsg_def Let_def split: option.splits)

lemma ProcessVisualMsg_other:
  "str_id m \<noteq> X \<Longrightarrow> visuals (ProcessVisualMsg m s) X = visuals s X"
  by (simp add: ProcessVisualMsg_def Let_def split: option.splits)

lemma fold_ProcessVisualMsg_frame [simp]:
  "lights (fold ProcessVisualMsg ms s) = lights s"
  "visualMsgs (fold ProcessVisualMsg ms s) = visualMsgs s"
  "lightMsgs (fold ProcessVisualMsg ms s) = lightMsgs s"
  "poseMsgs (fold ProcessVisualMsg ms s) = poseMsgs s"
  "selectionMsg (fold ProcessVisualMsg ms s) = selectionMsg s"
  "selectionObj (fold ProcessVisualMsg ms s) = selectionObj s"
  "ambientColor (fold ProcessVisualMsg ms s) = ambientColor s"
  by (induction ms arbitrary: s; simp)+

lemma fold_ProcessVisualMsg_other:
  "\<forall>m\<in>set ms. str_id m \<noteq> X \<Longrightarrow> visuals (fold ProcessVisualMsg ms s) X = visuals s X"
  by (induction ms arbitrary: s) (simp_all add: ProcessVisualMsg_other)

lemma ProcessVisualMsg_create:
  "action m \<noteq> Some DELETE \<Longrightarrow> visuals s (str_id m) = None \<Longrightarrow>
   \<exists>v. visuals (ProcessVisualMsg m s) (str_id m) = Some v \<and> vis_name v = str_id m
       \<and> vis_calls v = [LoadFromMsg m]"
  by (simp add: ProcessVisualMsg_def Let_def)

lemma ProcessVisualMsg_delete:
  "action m = Some DELETE \<Longrightarrow> visuals (ProcessVisualMsg m s) (str_id m) = None"
  by (simp add: ProcessVisualMsg_def split: option.splits)

lemma fold_ProcessVisualMsg_create:
  assumes "visuals s X = None"
    and "filter (\<lambda>m. str_id m = X) ms = [vm]"
    and "action vm \<noteq> Some DELETE"
  shows "\<exists>v. visuals (fold ProcessVisualMsg ms s) X = Some v \<and> vis_name v = X
       \<and> vis_calls v = [LoadFromMsg vm]"
  using assms
proof (induction ms arbitrary: s)
  case Nil
  then show ?case by simp
next
  case (Cons m ms)
  show ?case
  proof (cases "str_id m = X")
    case True
    with Cons.prems have m: "m = vm" and rest: "\<forall>m'\<in>set ms. str_id m' \<noteq> X"
      by (auto simp: filter_empty_conv)
    from ProcessVisualMsg_create [of m s] Cons.prems True m
    obtain v where v: "visuals (ProcessVisualMsg m s) X = Some v" "vis_name v = X"
        "vis_calls v = [LoadFromMsg vm]"
      by auto
    then show ?thesis
      using fold_ProcessVisualMsg_other [OF rest, of "ProcessVisualMsg m s"] by simp
  next
    case False
    then have "visuals (ProcessVisualMsg m s) X = None"
      using Cons.prems(1) by (simp add: ProcessVisualMsg_other)
    moreover from False Cons.prems(2) have "filter (\<lambda>m. str_id m = X) ms = [vm]" by simp
    ultimately show ?thesis using Cons.IH Cons.prems(3) by simp
  qed
qed

subsection \<open>Applying light messages\<close>

lemma ProcessLightMsg_frame [simp]:
  "visuals (ProcessLightMsg m s) = visuals s"
  "visualMsgs (ProcessLightMsg m s) = visualMsgs s"
  "lightMsgs (ProcessLightMsg m s) = lightMsgs s"
  "poseMsgs (ProcessLightMsg m s) = poseMsgs s"
  "selectionMsg (ProcessLightMsg m s) = selectionMsg s"
  "selectionObj (ProcessLightMsg m s) = selectionObj s"
  "ambientColor (ProcessLightMsg m s) = ambientColor s"
  by (simp_all add: ProcessLightMsg_def split: option.splits)

lemma fold_ProcessLightMsg_frame [simp]:
  "visuals (fold ProcessLightMsg ms s) = visuals s"
  "visualMsgs (fold ProcessLightMsg ms s) = visualMsgs s"
  "lightMsgs (fold ProcessLightMsg ms s) = lightMsgs s"
  "poseMsgs (fold ProcessLightMsg ms s) = poseMsgs s"
  "selectionMsg (fold ProcessLightMsg ms s) = selectionMsg s"
  "selectionObj (fold ProcessLightMsg ms s) = selectionObj s"
  "ambientColor (fold ProcessLightMsg ms s) = ambientColor s"
  by (induction ms arbitrary: s; simp)+

subsection \<open>The pose loop\<close>

lemma pose_loop_frame [simp]:
  "lights (pose_loop kept ms s) = lights s"
  "visualMsgs (pose_loop kept ms s) = visualMsgs s"
  "lightMsgs (pose_loop kept ms s) = lightMsgs s"
  "selectionMsg (pose_loop kept ms s) = selectionMsg s"
  "selectionObj (pose_loop kept ms s) = selectionObj s"
  "ambientColor (pose_loop kept ms s) = ambientColor s"
  by (induction kept ms s rule: pose_loop.induct; simp split: option.splits)+

lemma pose_loop_visuals:
  "visuals (pose_loop kept ms s) X =
     (case visuals s X of
        None \<Rightarrow> None
      | Some v \<Rightarrow> Some (v\<lparr>vis_calls := vis_calls v
                          @ map (\<lambda>m. SetPose (Convert m)) (filter (\<lambda>m. pose_str_id m = X) ms)\<rparr>))"
  by (induction kept ms s rule: pose_loop.induct) (auto split: option.splits)

lemma pose_loop_poseMsgs:
  "poseMsgs (pose_loop kept ms s) = kept @ filter (\<lambda>m. visuals s (pose_str_id m) = None) ms"
proof (induction kept ms s rule: pose_loop.induct)
  case (1 kept s)
  then show ?case by simp
next
  case (2 kept m ms s)
  show ?case
  proof (cases "visuals s (pose_str_id m)")
    case None
    with 2 show ?thesis by simp
  next
    case (Some v)
    have "filter (\<lambda>m'. ((visuals s)(pose_str_id m \<mapsto> v\<lparr>vis_calls := vis_calls v @ [SetPose (Convert m)]\<rparr>)) (pose_str_id m') = None) ms
        = filter (\<lambda>m'. visuals s (pose_str_id m') = None) ms"
      using Some by (intro filter_cong) auto
    with 2 Some show ?thesis by simp
  qed
qed

subsection \<open>PreRender as a whole\<close>

lemma visual_phase_visuals: "visuals (visual_phase s) = visuals (fold ProcessVisualMsg (visualMsgs s) s)"
  by (simp add: visual_phase_def)

lemma PreRender_visuals:
  "visuals (PreRender s) X =
     (case visuals (visual_phase s) X of
        None \<Rightarrow> None
      | Some v \<Rightarrow> Some (v\<lparr>vis_calls := vis_calls v
                          @ map (\<lambda>m. SetPose (Convert m)) (pending_for X s)\<rparr>))"
  by (simp add: PreRender_phases selection_phase_def pose_phase_def light_phase_def
      visual_phase_def pose_loop_visuals pending_for_def split: option.splits)

lemma PreRender_dom: "dom (visuals (PreRender s)) = dom (visuals (visual_phase s))"
  by (auto simp: PreRender_visuals dom_def split: option.splits)

lemma PreRender_poseMsgs:
  "poseMsgs (PreRender s) = filter (\<lambda>m. visuals (visual_phase s) (pose_str_id m) = None) (poseMsgs s)"
  by (simp add: PreRender_phases selection_phase_def pose_phase_def light_phase_def
      visual_phase_def pose_loop_poseMsgs split: option.splits)

lemma PreRender_drained:
  "visualMsgs (PreRender s) = []" "lightMsgs (PreRender s) = []" "selectionMsg (PreRender s) = None"
  by (simp_all add: PreRender_phases selection_phase_def pose_phase_def light_phase_def
      visual_phase_def split: option.splits)

lemma PreRender_selectionObj:
  "selectionObj (PreRender s) =
     (case selectionMsg s of
        None \<Rightarrow> selectionObj s
      | Some sel \<Rightarrow> (if selection_str_id sel \<in> dom (visuals (visual_phase s))
                     then Some (selection_str_id sel) else None))"
  by (auto simp add: PreRender_phases selection_phase_def pose_phase_def light_phase_def
      visual_phase_def pose_loop_visuals dom_def split: option.splits)

lemma PreRender_pending_for:
  "pending_for X (PreRender s) = (if visuals (visual_phase s) X = None then pending_for X s else [])"
  by (auto simp: pending_for_def PreRender_poseMsgs filter_empty_conv intro: filter_cong)

lemma PreRender_unresolved:
  assumes "visuals s X = None" and "\<forall>m\<in>set (visualMsgs s). str_id m \<noteq> X"
  shows "visuals (PreRender s) X = None \<and> pending_for X (PreRender s) = pending_for X s"
proof -
  have "visuals (visual_phase s) X = None"
    using assms by (simp add: visual_phase_visuals fold_ProcessVisualMsg_other)
  then show ?thesis by (simp add: PreRender_visuals PreRender_pending_for)
qed

lemma PreRender_resolves:
  assumes "visuals s X = None"
    and "filter (\<lambda>m. str_id m = X) (visualMsgs s) = [vm]"
    and "action vm \<noteq> Some DELETE"
  shows "(\<exists>v. visuals (PreRender s) X = Some v \<and> vis_name v = X
            \<and> vis_calls v = LoadFromMsg vm # map (\<lambda>m. SetPose (Convert m)) (pending_for X s))
       \<and> pending_for X (PreRender s) = []"
proof -
  from fold_ProcessVisualMsg_create [OF assms]
  obtain v where "visuals (visual_phase s) X = Some v" "vis_name v = X"
    "vis_calls v = [LoadFromMsg vm]"
    by (auto simp: visual_phase_visuals)
  then show ?thesis by (simp add: PreRender_visuals PreRender_pending_for)
qed

lemma PreRender_None:
  "visuals (PreRender s) X = None \<longleftrightarrow> visuals (visual_phase s) X = None"
  by (simp add: PreRender_visuals split: option.splits)




text \<open>
  Within one cycle no pending pose message is lost: it is either still pending after
  the cycle (its target is not registered) or it has been handed to its target by
  \<^verbatim>\<open>SetPose\<close> and erased.
\<close>

lemma PreRender_keeps_or_applies:
  assumes "q \<in> set (poseMsgs t)"
  shows "case visuals (PreRender t) (pose_str_id q) of
           None \<Rightarrow> q \<in> set (poseMsgs (PreRender t))
         | Some v \<Rightarrow> SetPose (Convert q) \<in> set (vis_calls v)
                      \<and> q \<notin> set (poseMsgs (PreRender t))"
proof (cases "visuals (visual_phase t) (pose_str_id q)")
  case None
  then show ?thesis
    using assms by (simp add: PreRender_visuals PreRender_poseMsgs)
next
  case (Some w)
  have "q \<in> set (pending_for (pose_str_id q) t)"
    using assms by (simp add: pending_for_def)
  then show ?thesis
    using Some by (auto simp: PreRender_visuals PreRender_poseMsgs)
qed

subsection \<open>Receiving pose messages one by one\<close>

text \<open>
  \<^verbatim>\<open>ReceivePoseMsg\<close> keeps the identifiers of the pending pose messages distinct,
  provided they were distinct before.
\<close>

lemma erase_first_distinct:
  "distinct (map pose_str_id ms) \<Longrightarrow>
   distinct (map pose_str_id (erase_first i ms)) \<and> i \<notin> set (map pose_str_id (erase_first i ms))
   \<and> set (erase_first i ms) \<subseteq> set ms"
  by (induction ms) auto

lemma ReceivePoseMsg_distinct:
  "distinct (map pose_str_id (poseMsgs s)) \<Longrightarrow>
   distinct (map pose_str_id (poseMsgs (ReceivePoseMsg m s)))"
  using erase_first_distinct [of "poseMsgs s" "pose_str_id m"]
  by (simp add: ReceivePoseMsg_def)


subsection \<open>Events that do not name an identifier\<close>

lemma filter_erase_first_other:
  "i \<noteq> X \<Longrightarrow> filter (\<lambda>m. pose_str_id m = X) (erase_first i ms) = filter (\<lambda>m. pose_str_id m = X) ms"
  by (induction ms) auto

lemma filter_erase_first_same:
  "filter (\<lambda>m. pose_str_id m = X) (erase_first X ms) = tl (filter (\<lambda>m. pose_str_id m = X) ms)"
  by (induction ms) auto

lemma pending_for_ReceivePoseMsg:
  "pose_str_id pm = X \<Longrightarrow> pending_for X (ReceivePoseMsg pm s) = tl (pending_for X s) @ [pm]"
  by (simp add: pending_for_def ReceivePoseMsg_def filter_erase_first_same)

lemma ReceiveSceneMsg_fields [simp]:
  "visuals (ReceiveSceneMsg m s) = visuals s"
  "lights (ReceiveSceneMsg m s) = lights s"
  "visualMsgs (ReceiveSceneMsg m s) = visualMsgs s @ scene_visual m"
  "poseMsgs (ReceiveSceneMsg m s) = poseMsgs s @ scene_pose m"
  "lightMsgs (ReceiveSceneMsg m s) = lightMsgs s @ scene_light m"
  "selectionMsg (ReceiveSceneMsg m s) = selectionMsg s"
  "selectionObj (ReceiveSceneMsg m s) = selectionObj s"
  by (simp_all add: ReceiveSceneMsg_def SetAmbientColor_def Let_def split: option.splits)

lemma deliver_unnamed:
  assumes "\<not> names X e" and "unregistered X s"
  shows "unregistered X (deliver e s) \<and> pending_for X (deliver e s) = pending_for X s"
proof (cases e)
  case OnPreRender
  with assms PreRender_unresolved [of s X] show ?thesis
    by (simp add: unregistered_def PreRender_drained filter_empty_conv)
next
  case (OnSceneMsg m)
  with assms show ?thesis
    by (auto simp: unregistered_def pending_for_def filter_empty_conv)
next
  case (OnPoseMsg m)
  with assms show ?thesis
    by (simp add: unregistered_def pending_for_def ReceivePoseMsg_def filter_erase_first_other)
qed (use assms in \<open>simp_all add: unregistered_def pending_for_def ReceiveVisualMsg_def
      ReceiveLightMsg_def OnSelectionMsg_def\<close>)

lemma run_unnamed:
  assumes "\<forall>e\<in>set es. \<not> names X e" and "unregistered X s"
  shows "unregistered X (run es s) \<and> pending_for X (run es s) = pending_for X s"
  using assms unfolding run_def
proof (induction es arbitrary: s)
  case Nil
  then show ?case by simp
next
  case (Cons e es)
  then have "unregistered X (deliver e s)" "pending_for X (deliver e s) = pending_for X s"
    using deliver_unnamed [of X e s] by simp_all
  with Cons show ?case by simp
qed

lemma deliver_unnamed_announced:
  assumes "\<not> names X e" and "\<not> is_cycle e" and "announced X vm s"
  shows "announced X vm (deliver e s) \<and> pending_for X (deliver e s) = pending_for X s"
proof (cases e)
  case (OnSceneMsg m)
  with assms show ?thesis
    by (auto simp: announced_def pending_for_def filter_empty_conv)
next
  case (OnPoseMsg m)
  with assms show ?thesis
    by (simp add: announced_def pending_for_def ReceivePoseMsg_def filter_erase_first_other)
qed (use assms in \<open>simp_all add: announced_def pending_for_def ReceiveVisualMsg_def
      ReceiveLightMsg_def OnSelectionMsg_def\<close>)

lemma run_unnamed_announced:
  assumes "\<forall>e\<in>set es. \<not> names X e \<and> \<not> is_cycle e" and "announced X vm s"
  shows "announced X vm (run es s) \<and> pending_for X (run es s) = pending_for X s"
  using assms unfolding run_def
proof (induction es arbitrary: s)
  case Nil
  then show ?case by simp
next
  case (Cons e es)
  then have "announced X vm (deliver e s)" "pending_for X (deliver e s) = pending_for X s"
    using deliver_unnamed_announced [of X e vm s] by simp_all
  with Cons show ?case by simp
qed

lemma announce:
  "str_id vm = X \<Longrightarrow> unregistered X s \<Longrightarrow>
   announced X vm (ReceiveVisualMsg vm s) \<and> pending_for X (ReceiveVisualMsg vm s) = pending_for X s"
  by (simp add: unregistered_def announced_def ReceiveVisualMsg_def pending_for_def)

lemma run_append: "run (es @ es') s = run es' (run es s)"
  by (simp add: run_def)

lemma run_Cons: "run (e # es) s = run es (deliver e s)"
  by (simp add: run_def)

text \<open>The whole scenario: announce X after a run that never names it, then one cycle.\<close>

lemma deferred_then_resolved:
  assumes "unregistered X s"
    and "\<forall>e\<in>set es1. \<not> names X e"
    and "str_id vm = X" and "action vm \<noteq> Some DELETE"
    and "\<forall>e\<in>set es2. \<not> names X e \<and> \<not> is_cycle e"
  shows "(unregistered X (run es1 s) \<and> pending_for X (run es1 s) = pending_for X s)
       \<and> (\<exists>v. visuals (run (es1 @ [OnVisualMsg vm] @ es2 @ [OnPreRender]) s) X = Some v
              \<and> vis_name v = X
              \<and> vis_calls v = LoadFromMsg vm # map (\<lambda>m. SetPose (Convert m)) (pending_for X s))
       \<and> pending_for X (run (es1 @ [OnVisualMsg vm] @ es2 @ [OnPreRender]) s) = []"
proof -
  let ?t1 = "run es1 s"
  let ?t2 = "ReceiveVisualMsg vm ?t1"
  let ?t3 = "run es2 ?t2"
  have 1: "unregistered X ?t1" "pending_for X ?t1 = pending_for X s"
    using run_unnamed [OF assms(2,1)] by simp_all
  have 2: "announced X vm ?t2" "pending_for X ?t2 = pending_for X s"
    using announce [OF assms(3) 1(1)] 1(2) by simp_all
  have 3: "announced X vm ?t3" "pending_for X ?t3 = pending_for X s"
    using run_unnamed_announced [OF assms(5) 2(1)] 2(2) by simp_all
  have run: "run (es1 @ [OnVisualMsg vm] @ es2 @ [OnPreRender]) s = PreRender ?t3"
    by (simp add: run_append run_Cons) (simp add: run_def)
  from 3(1) have "visuals ?t3 X = None" "filter (\<lambda>m. str_id m = X) (visualMsgs ?t3) = [vm]"
    by (simp_all add: announced_def)
  from PreRender_resolves [OF this assms(4)] 1 3(2) run show ?thesis by simp
qed

section \<open>Poses that arrive before their visual\<close>

text \<open>
  C1. A pose message for \<open>X\<close> received while no visual is registered under \<open>X\<close> and no
  visual message for \<open>X\<close> is pending is not dropped. Through any further deliveries and
  cycles that do not name \<open>X\<close> it stays in the pending pose list and \<open>X\<close> stays
  unregistered. Once a creating visual message for \<open>X\<close> is delivered, the next cycle
  registers the visual, calls \<^verbatim>\<open>SetPose\<close> with the pose as the last call on it, and
  erases the pose message; the cycles before it may be none, so that pose and visual are
  applied in the same cycle. The calls on the new visual are given exactly: stale pose
  messages for \<open>X\<close> that were pending before (all but the one that \<^verbatim>\<open>ReceivePoseMsg\<close>
  erased) are applied first, the received pose last. In any single cycle from any scene
  \<open>t\<close>, a pending pose message \<open>q\<close> is either still pending afterwards or has been
  handed to its registered target.
\<close>

theorem pose_deferred_until_visual:
  assumes "unregistered X s" and "pose_str_id pm = X"
    and "\<forall>e\<in>set es1. \<not> names X e"
    and "str_id vm = X" and "action vm \<noteq> Some DELETE"
    and "\<forall>e\<in>set es2. \<not> names X e \<and> \<not> is_cycle e"
  shows "(visuals (run (OnPoseMsg pm # es1) s) X = None
          \<and> pm \<in> set (poseMsgs (run (OnPoseMsg pm # es1) s)))
       \<and> (\<exists>v. visuals (run (OnPoseMsg pm # es1 @ [OnVisualMsg vm] @ es2 @ [OnPreRender]) s) X
                 = Some v
              \<and> vis_name v = X
              \<and> vis_calls v = LoadFromMsg vm
                   # map (\<lambda>m. SetPose (Convert m)) (tl (pending_for X s) @ [pm]))
       \<and> pending_for X (run (OnPoseMsg pm # es1 @ [OnVisualMsg vm] @ es2 @ [OnPreRender]) s) = []
       \<and> (q \<in> set (poseMsgs t) \<longrightarrow>
            (case visuals (PreRender t) (pose_str_id q) of
               None \<Rightarrow> q \<in> set (poseMsgs (PreRender t))
             | Some v \<Rightarrow> SetPose (Convert q) \<in> set (vis_calls v)
                          \<and> q \<notin> set (poseMsgs (PreRender t))))"
proof -
  let ?s1 = "ReceivePoseMsg pm s"
  have unreg: "unregistered X ?s1"
    using assms(1) by (simp add: unregistered_def ReceivePoseMsg_def)
  have pend: "pending_for X ?s1 = tl (pending_for X s) @ [pm]"
    using assms(2) by (rule pending_for_ReceivePoseMsg)
  note main = deferred_then_resolved [OF unreg assms(3) assms(4) assms(5) assms(6)]
  from main have "pending_for X (run es1 ?s1) = tl (pending_for X s) @ [pm]"
    using pend by simp
  then have "pm \<in> set (pending_for X (run es1 ?s1))" by simp
  then have "pm \<in> set (poseMsgs (run es1 ?s1))" by (simp add: pending_for_def)
  moreover from main have "visuals (run es1 ?s1) X = None" by (simp add: unregistered_def)
  ultimately show ?thesis
    using main pend PreRender_keeps_or_applies [of q t] by (simp add: run_Cons)
qed

theorem pose_deferred_until_visual_witness:
  "unregistered ''v2'' scene0 \<and> pose_str_id pose_v2_P1 = ''v2''
   \<and> \<not> names ''v2'' (OnPreRender :: (nat, nat, nat, nat) event)
   \<and> str_id create_v2 = ''v2'' \<and> action create_v2 \<noteq> Some DELETE
   \<and> visuals (run [OnPoseMsg pose_v2_P1, OnPreRender] scene0) ''v2'' = None
   \<and> poseMsgs (run [OnPoseMsg pose_v2_P1, OnPreRender] scene0) = [pose_v2_P1]
   \<and> visuals (run [OnPoseMsg pose_v2_P1, OnPreRender, OnVisualMsg create_v2, OnPreRender] scene0)
        ''v2''
       = Some \<lparr>vis_name = ''v2'', vis_parent = None,
               vis_calls = [LoadFromMsg create_v2, SetPose 1]\<rparr>
   \<and> poseMsgs (run [OnPoseMsg pose_v2_P1, OnPreRender, OnVisualMsg create_v2, OnPreRender] scene0)
       = []
   \<and> pose_v2_P1 \<in> set (poseMsgs (ReceivePoseMsg pose_v2_P1 scene0))
   \<and> pose_v2_P1 \<in> set (poseMsgs (PreRender (ReceivePoseMsg pose_v2_P1 scene0)))"
proof -
  have h: "unregistered ''v2'' scene0" "pose_str_id pose_v2_P1 = ''v2''"
    "\<forall>e\<in>set [OnPreRender :: (nat, nat, nat, nat) event]. \<not> names ''v2'' e"
    "str_id create_v2 = ''v2''" "action create_v2 \<noteq> Some DELETE"
    "\<forall>e\<in>set ([] :: (nat, nat, nat, nat) event list). \<not> names ''v2'' e \<and> \<not> is_cycle e"
    by (simp_all add: unregistered_def scene0_def pose_v2_P1_def create_v2_def)
  have k: "pose_v2_P1 \<in> set (poseMsgs (ReceivePoseMsg pose_v2_P1 scene0))"
    by (simp add: ReceivePoseMsg_def scene0_def pose_v2_P1_def create_v2_def)
  from pose_deferred_until_visual
         [OF h, of pose_v2_P1 "ReceivePoseMsg pose_v2_P1 scene0"] h k
  show ?thesis
    by (simp add: handler_defs scene0_def pose_v2_P1_def create_v2_def)
qed


section \<open>The order of application within a cycle\<close>




section \<open>Two poses for one unregistered identifier\<close>

text \<open>
  C3. Let \<open>X\<close> be unregistered with no visual message pending, and let two pose
  messages \<open>p1\<close>, then \<open>p2\<close>, for \<open>X\<close> be received through \<^verbatim>\<open>ReceivePoseMsg\<close>, with any
  deliveries and cycles that do not name \<open>X\<close> in between (none, when both are received
  within one cycle) and afterwards. When \<open>X\<close> is then created and the next cycle runs,
  the last call on the visual is \<^verbatim>\<open>SetPose\<close> with the pose of \<open>p2\<close>; and when at most
  one pose for \<open>X\<close> was pending before, \<open>p1\<close> has been replaced and the pose of \<open>p2\<close>
  is the only one applied.
\<close>

theorem last_staged_pose_wins:
  assumes "unregistered X s" and "pose_str_id p1 = X" and "pose_str_id p2 = X"
    and "\<forall>e\<in>set es0. \<not> names X e"
    and "\<forall>e\<in>set es1. \<not> names X e"
    and "str_id vm = X" and "action vm \<noteq> Some DELETE"
    and "\<forall>e\<in>set es2. \<not> names X e \<and> \<not> is_cycle e"
  shows "\<exists>v. visuals (run (OnPoseMsg p1 # es0 @ OnPoseMsg p2 # es1
                          @ [OnVisualMsg vm] @ es2 @ [OnPreRender]) s) X = Some v
           \<and> (\<exists>cs. vis_calls v = LoadFromMsg vm # cs @ [SetPose (Convert p2)])
           \<and> (length (pending_for X s) \<le> 1
                \<longrightarrow> vis_calls v = [LoadFromMsg vm, SetPose (Convert p2)])"
proof -
  let ?s1 = "ReceivePoseMsg p1 s"
  let ?t0 = "run es0 ?s1"
  let ?s2 = "ReceivePoseMsg p2 ?t0"
  let ?ps = "tl (tl (pending_for X s) @ [p1])"
  have "unregistered X ?s1"
    using assms(1) by (simp add: unregistered_def ReceivePoseMsg_def)
  moreover have "pending_for X ?s1 = tl (pending_for X s) @ [p1]"
    using assms(2) by (rule pending_for_ReceivePoseMsg)
  ultimately have t0: "unregistered X ?t0" "pending_for X ?t0 = tl (pending_for X s) @ [p1]"
    using run_unnamed [OF assms(4), of ?s1] by simp_all
  have unreg: "unregistered X ?s2"
    using t0(1) by (simp add: unregistered_def ReceivePoseMsg_def)
  have pend: "pending_for X ?s2 = ?ps @ [p2]"
    using pending_for_ReceivePoseMsg [OF assms(3), of ?t0] t0(2) by simp
  have run: "run (OnPoseMsg p1 # es0 @ OnPoseMsg p2 # es1 @ [OnVisualMsg vm] @ es2 @ [OnPreRender]) s
      = run (es1 @ [OnVisualMsg vm] @ es2 @ [OnPreRender]) ?s2"
    by (simp add: run_Cons run_append)
  from deferred_then_resolved [OF unreg assms(5) assms(6) assms(7) assms(8)] pend run
  obtain v where v: "visuals (run (OnPoseMsg p1 # es0 @ OnPoseMsg p2 # es1
                          @ [OnVisualMsg vm] @ es2 @ [OnPreRender]) s) X = Some v"
    "vis_calls v = LoadFromMsg vm # map (\<lambda>m. SetPose (Convert m)) (?ps @ [p2])"
    by auto
  have "length (pending_for X s) \<le> 1 \<Longrightarrow> ?ps = []"
    by (cases "pending_for X s") simp_all
  with v show ?thesis by auto
qed

theorem last_staged_pose_wins_witness:
  "unregistered ''v2'' scene0 \<and> pose_str_id pose_v2_P1 = ''v2'' \<and> pose_str_id pose_v2_P2 = ''v2''
   \<and> \<not> names ''v2'' (OnPreRender :: (nat, nat, nat, nat) event)
   \<and> str_id create_v2 = ''v2'' \<and> action create_v2 \<noteq> Some DELETE
   \<and> length (pending_for ''v2'' scene0) \<le> 1
   \<and> poseMsgs (run [OnPoseMsg pose_v2_P1, OnPoseMsg pose_v2_P2] scene0) = [pose_v2_P2]
   \<and> visuals (run [OnPoseMsg pose_v2_P1, OnPoseMsg pose_v2_P2, OnPreRender,
                   OnVisualMsg create_v2, OnPreRender] scene0) ''v2''
       = Some \<lparr>vis_name = ''v2'', vis_parent = None,
               vis_calls = [LoadFromMsg create_v2, SetPose 2]\<rparr>"
proof -
  have h: "unregistered ''v2'' scene0" "pose_str_id pose_v2_P1 = ''v2''"
    "pose_str_id pose_v2_P2 = ''v2''"
    "\<forall>e\<in>set ([] :: (nat, nat, nat, nat) event list). \<not> names ''v2'' e"
    "\<forall>e\<in>set [OnPreRender :: (nat, nat, nat, nat) event]. \<not> names ''v2'' e"
    "str_id create_v2 = ''v2''" "action create_v2 \<noteq> Some DELETE"
    "\<forall>e\<in>set ([] :: (nat, nat, nat, nat) event list). \<not> names ''v2'' e \<and> \<not> is_cycle e"
    by (simp_all add: unregistered_def scene0_def pose_v2_P1_def pose_v2_P2_def create_v2_def)
  have l: "length (pending_for ''v2'' scene0) \<le> 1"
    by (simp add: pending_for_def scene0_def pose_v2_P1_def pose_v2_P2_def create_v2_def)
  from last_staged_pose_wins [OF h] h l show ?thesis
    by (simp add: handler_defs scene0_def pose_v2_P1_def pose_v2_P2_def create_v2_def pending_for_def)
qed


section \<open>Pose entries of a scene message\<close>

text \<open>
  C4. At most one pose per identifier is pending after any sequence of receive
  operations. \<^verbatim>\<open>ReceivePoseMsg\<close> maintains this (\<open>ReceivePoseMsg_distinct\<close>), but
  \<^verbatim>\<open>ReceiveSceneMsg\<close> appends its pose entries without looking for an older one: a
  scene message with two pose entries for \<open>v1\<close>, received by the empty scene, leaves
  two pending poses for \<open>v1\<close>; and a scene message received after a pose message for
  the same identifier leaves the older pose pending as well.
\<close>

theorem scene_msg_poses_are_appended:
  "poseMsgs (ReceiveSceneMsg scene_two_poses scene0) = [pose_v1_P1, pose_v1_P2]
   \<and> pending_for ''v1'' (ReceiveSceneMsg scene_two_poses scene0) = [pose_v1_P1, pose_v1_P2]
   \<and> pose_str_id pose_v1_P1 = pose_str_id pose_v1_P2
   \<and> \<not> distinct (map pose_str_id (poseMsgs (ReceiveSceneMsg scene_two_poses scene0)))
   \<and> poseMsgs (ReceiveSceneMsg scene_two_poses (ReceivePoseMsg pose_v1_P2 scene0))
       = [pose_v1_P2, pose_v1_P1, pose_v1_P2]"
  by (simp add: handler_defs scene0_def scene_two_poses_def pose_v1_P1_def pose_v1_P2_def pending_for_def)


section \<open>Create, update and delete in one batch\<close>

text \<open>
  C5. When the pending visual messages of a cycle are a create, an update and a delete
  for the same identifier \<open>A\<close>, in this order, \<open>A\<close> is not registered after the cycle.
  (After the first two messages alone \<open>A\<close> is registered and its last call is the
  update.)
\<close>

theorem create_update_delete_leaves_absent:
  assumes "visualMsgs s = [c, u, d]"
    and "str_id c = A" and "str_id u = A" and "str_id d = A"
    and "action c \<noteq> Some DELETE" and "action u \<noteq> Some DELETE" and "action d = Some DELETE"
  shows "A \<notin> dom (visuals (PreRender s))
       \<and> (\<exists>v. visuals (ProcessVisualMsg u (ProcessVisualMsg c s)) A = Some v
              \<and> last (vis_calls v) = UpdateFromMsg u)"
proof -
  have "visuals (visual_phase s) A = None"
    using assms(1,4,7) ProcessVisualMsg_delete [of d "ProcessVisualMsg u (ProcessVisualMsg c s)"]
    by (simp add: visual_phase_visuals)
  then have "A \<notin> dom (visuals (PreRender s))"
    by (simp add: dom_def PreRender_None)
  moreover have "\<exists>v. visuals (ProcessVisualMsg u (ProcessVisualMsg c s)) A = Some v
              \<and> last (vis_calls v) = UpdateFromMsg u"
  proof -
    obtain w where "visuals (ProcessVisualMsg c s) A = Some w"
      using assms(2,5) by (cases "visuals s A") (auto simp: ProcessVisualMsg_def Let_def)
    then show ?thesis
      using assms(3,6) by (simp add: ProcessVisualMsg_def)
  qed
  ultimately show ?thesis by simp
qed

theorem create_update_delete_leaves_absent_witness:
  "visualMsgs (scene0\<lparr>visualMsgs := [create_v1, update_v1, delete_v1]\<rparr>)
     = [create_v1, update_v1, delete_v1]
   \<and> str_id create_v1 = ''v1'' \<and> str_id update_v1 = ''v1'' \<and> str_id delete_v1 = ''v1''
   \<and> action create_v1 \<noteq> Some DELETE \<and> action update_v1 \<noteq> Some DELETE
   \<and> action delete_v1 = Some DELETE
   \<and> visuals (PreRender (scene0\<lparr>visualMsgs := [create_v1, update_v1, delete_v1]\<rparr>)) ''v1'' = None
   \<and> visuals (PreRender (scene0\<lparr>visualMsgs := [create_v1, update_v1]\<rparr>)) ''v1''
       = Some \<lparr>vis_name = ''v1'', vis_parent = None,
               vis_calls = [LoadFromMsg create_v1, UpdateFromMsg update_v1]\<rparr>"
proof -
  let ?s = "scene0\<lparr>visualMsgs := [create_v1, update_v1, delete_v1]\<rparr>"
  have h: "visualMsgs ?s = [create_v1, update_v1, delete_v1]"
    "str_id create_v1 = ''v1''" "str_id update_v1 = ''v1''" "str_id delete_v1 = ''v1''"
    "action create_v1 \<noteq> Some DELETE" "action update_v1 \<noteq> Some DELETE"
    "action delete_v1 = Some DELETE"
    by (simp_all add: scene0_def create_v1_def update_v1_def delete_v1_def)
  from create_update_delete_leaves_absent [OF h] h show ?thesis
    by (simp add: handler_defs scene0_def create_v1_def update_v1_def delete_v1_def dom_def)
qed


section \<open>Selection\<close>

text \<open>
  C6. In a cycle with a pending selection message: when its identifier is not
  registered as a visual (as the cycle's lookup finds the registry, which is how the
  cycle leaves it), the cycle ends with nothing attached to the selection object,
  whatever was attached before; in particular when the identifier was unregistered at
  the start and no visual message for it was pending. When the identifier is
  registered, the selection object is attached to that visual and to nothing else. The
  pending selection message is cleared in both cases.
\<close>

theorem selection_resolves_or_clears:
  assumes "selectionMsg s = Some sel"
  shows "(selection_str_id sel \<notin> dom (visuals (PreRender s))
            \<longrightarrow> selectionObj (PreRender s) = None)
       \<and> (selection_str_id sel \<in> dom (visuals (PreRender s))
            \<longrightarrow> selectionObj (PreRender s) = Some (selection_str_id sel))
       \<and> (unregistered (selection_str_id sel) s \<longrightarrow> selectionObj (PreRender s) = None)
       \<and> selectionMsg (PreRender s) = None"
proof -
  have "unregistered (selection_str_id sel) s
      \<Longrightarrow> selection_str_id sel \<notin> dom (visuals (PreRender s))"
    using PreRender_unresolved [of s "selection_str_id sel"]
    by (auto simp: unregistered_def filter_empty_conv)
  then show ?thesis
    using assms by (auto simp: PreRender_selectionObj PreRender_dom PreRender_drained)
qed

theorem selection_resolves_or_clears_witness:
  "selectionObj v1_selected = Some ''v1''
   \<and> selectionMsg (OnSelectionMsg select_ghost v1_selected) = Some select_ghost
   \<and> unregistered ''ghost'' (OnSelectionMsg select_ghost v1_selected)
   \<and> selection_str_id select_ghost
       \<notin> dom (visuals (PreRender (OnSelectionMsg select_ghost v1_selected)))
   \<and> selectionObj (PreRender (OnSelectionMsg select_ghost v1_selected)) = None
   \<and> selectionMsg (OnSelectionMsg select_v1 v1_selected) = Some select_v1
   \<and> selection_str_id select_v1
       \<in> dom (visuals (PreRender (OnSelectionMsg select_v1 v1_selected)))
   \<and> selectionObj (PreRender (OnSelectionMsg select_v1 v1_selected)) = Some ''v1''"
proof -
  have g: "selectionMsg (OnSelectionMsg select_ghost v1_selected) = Some select_ghost"
    and k: "selectionMsg (OnSelectionMsg select_v1 v1_selected) = Some select_v1"
    by (simp_all add: OnSelectionMsg_def)
  from selection_resolves_or_clears [OF g] selection_resolves_or_clears [OF k] g k
  show ?thesis
    by (simp add: handler_defs v1_selected_def scene0_def create_v1_def select_v1_def select_ghost_def unregistered_def dom_def)
qed


section \<open>A light message for a registered identifier\<close>

text \<open>
  C7, as stated: a light message whose identifier is already registered is applied as
  an update or merge of the existing light. It is not: with the light \<open>sun\<close> created
  from \<open>sun1\<close>, applying \<open>sun2\<close> (same identifier, another payload) changes nothing;
  the light registered under \<open>sun\<close> is still the one loaded from \<open>sun1\<close>, and no call
  with \<open>sun2\<close> has been made on it.
\<close>

theorem light_msg_for_registered_id_not_merged:
  "lights (ProcessLightMsg sun1 scene0) ''sun'' = Some \<lparr>light_calls = [LightLoadFromMsg sun1]\<rparr>
   \<and> light_str_id sun2 \<in> dom (lights (ProcessLightMsg sun1 scene0))
   \<and> light_payload sun2 \<noteq> light_payload sun1
   \<and> lights (ProcessLightMsg sun2 (ProcessLightMsg sun1 scene0)) ''sun''
       = Some \<lparr>light_calls = [LightLoadFromMsg sun1]\<rparr>
   \<and> ProcessLightMsg sun2 (ProcessLightMsg sun1 scene0) = ProcessLightMsg sun1 scene0"
  by (simp add: ProcessLightMsg_def scene0_def sun1_def sun2_def)

text \<open>
  C7, amended: a light message whose identifier is already registered in the light
  registry is ignored. Applying it is not an error and leaves the whole scene, the
  existing light included, unchanged.
\<close>

theorem light_msg_for_registered_id_is_ignored:
  assumes "light_str_id msg \<in> dom (lights s)"
  shows "ProcessLightMsg msg s = s"
  using assms by (auto simp: ProcessLightMsg_def)

theorem light_msg_for_registered_id_is_ignored_witness:
  "light_str_id sun2 \<in> dom (lights (ProcessLightMsg sun1 scene0))
   \<and> ProcessLightMsg sun2 (ProcessLightMsg sun1 scene0) = ProcessLightMsg sun1 scene0"
proof -
  have h: "light_str_id sun2 \<in> dom (lights (ProcessLightMsg sun1 scene0))"
    by (simp add: ProcessLightMsg_def scene0_def sun1_def sun2_def)
  from light_msg_for_registered_id_is_ignored [OF h] h show ?thesis by simp
qed


section \<open>Deleting a visual\<close>

text \<open>
  C8. A delete message for an identifier that is not registered leaves the scene
  (hence the visual registry) unchanged, and there is no failing branch; applying a
  delete message twice gives the same scene as applying it once, and the identifier
  is not registered afterwards.
\<close>

theorem delete_absent_is_noop:
  assumes "action msg = Some DELETE"
  shows "(str_id msg \<notin> dom (visuals s) \<longrightarrow> ProcessVisualMsg msg s = s)
       \<and> ProcessVisualMsg msg (ProcessVisualMsg msg s) = ProcessVisualMsg msg s
       \<and> str_id msg \<notin> dom (visuals (ProcessVisualMsg msg s))"
  using assms by (auto simp: ProcessVisualMsg_def split: option.splits)

theorem delete_absent_is_noop_witness:
  "action delete_v1 = Some DELETE
   \<and> str_id delete_v1 \<notin> dom (visuals scene0)
   \<and> ProcessVisualMsg delete_v1 scene0 = scene0
   \<and> ProcessVisualMsg delete_v1 (ProcessVisualMsg delete_v1 (ProcessVisualMsg create_v1 scene0))
       = ProcessVisualMsg delete_v1 (ProcessVisualMsg create_v1 scene0)
   \<and> visuals (ProcessVisualMsg create_v1 scene0) ''v1'' \<noteq> None
   \<and> visuals (ProcessVisualMsg delete_v1 (ProcessVisualMsg create_v1 scene0)) ''v1'' = None"
  using delete_absent_is_noop [of delete_v1 scene0]
        delete_absent_is_noop [of delete_v1 "ProcessVisualMsg create_v1 scene0"]
  by (simp add: delete_v1_def create_v1_def scene0_def ProcessVisualMsg_def)


section \<open>The buffers after a cycle\<close>

text \<open>
  C10. After a cycle the pending visual and light messages are empty, the pending
  selection message is cleared whether or not it resolved, and the pending pose
  messages are those of the pose messages pending before whose identifier is not
  registered as a visual, in their original order.
\<close>

theorem buffers_after_cycle:
  "visualMsgs (PreRender s) = [] \<and> lightMsgs (PreRender s) = []
   \<and> selectionMsg (PreRender s) = None
   \<and> poseMsgs (PreRender s)
       = filter (\<lambda>m. pose_str_id m \<notin> dom (visuals (PreRender s))) (poseMsgs s)"
proof -
  have "poseMsgs (PreRender s)
      = filter (\<lambda>m. pose_str_id m \<notin> dom (visuals (PreRender s))) (poseMsgs s)"
    by (simp add: PreRender_poseMsgs dom_def PreRender_None)
  then show ?thesis by (simp add: PreRender_drained)
qed

end
